theory Spec2Isabelle
  imports Main
begin

section \<open>The data model of go/types/scope.go\<close>

text \<open>
  Go pointers are modelled as addresses into a store; a nil pointer is \<open>None\<close>.
  Scopes and objects are shared and mutated through pointers (a scope is reachable from
  every child, an object from every scope that holds it), so both live in an explicit
  store. Go has no dangling pointers: each store is a total function on addresses.
\<close>

type_synonym sref = nat
type_synonym oref = nat

text \<open>A \<^verbatim>\<open>*Package\<close> is only ever read through its \<^verbatim>\<open>path\<close> field.\<close>

record Package =
  path :: string

text \<open>
  The \<^verbatim>\<open>Object\<close> interface is declared outside scope.go. The scope code uses its
  methods \<^verbatim>\<open>Name()\<close>, \<^verbatim>\<open>Pkg()\<close> (a \<^verbatim>\<open>*Package\<close>, nil for an object without an
  originating package) and \<^verbatim>\<open>setParent\<close>, which records the owning scope.
\<close>

record object =
  Name :: string
  Pkg :: "Package option"
  owner :: "sref option"

text \<open>\<^verbatim>\<open>type Scope struct { parent *Scope; entries []Object }\<close>\<close>

record Scope =
  parent :: "sref option"
  entries :: "oref list"

record state =
  scopes :: "sref \<Rightarrow> Scope"
  objects :: "oref \<Rightarrow> object"
  nscopes :: nat

text \<open>A run-time panic of the Go program.\<close>

datatype fault = NilDeref | IndexOutOfRange

section \<open>The operations\<close>

text \<open>\<^verbatim>\<open>NewScope(parent)\<close> allocates \<^verbatim>\<open>&Scope{parent, nil}\<close> at a fresh address.\<close>

definition NewScope :: "sref option \<Rightarrow> state \<Rightarrow> sref \<times> state" where
  "NewScope p st =
     (nscopes st,
      st\<lparr>scopes := (scopes st)(nscopes st := \<lparr>parent = p, entries = []\<rparr>),
         nscopes := Suc (nscopes st)\<rparr>)"

text \<open>\<^verbatim>\<open>Parent\<close> reads \<^verbatim>\<open>s.parent\<close> without a nil check.\<close>

definition Parent :: "state \<Rightarrow> sref option \<Rightarrow> fault + sref option" where
  "Parent st s = (case s of None \<Rightarrow> Inl NilDeref | Some a \<Rightarrow> Inr (parent (scopes st a)))"

definition NumEntries :: "state \<Rightarrow> sref option \<Rightarrow> int" where
  "NumEntries st s = (case s of None \<Rightarrow> 0 | Some a \<Rightarrow> int (length (entries (scopes st a))))"

definition IsEmpty :: "state \<Rightarrow> sref option \<Rightarrow> bool" where
  "IsEmpty st s = (case s of None \<Rightarrow> True | Some a \<Rightarrow> length (entries (scopes st a)) = 0)"

text \<open>\<^verbatim>\<open>At\<close> is \<^verbatim>\<open>s.entries[i]\<close>: a nil receiver and an index out of range panic.\<close>

definition At :: "state \<Rightarrow> sref option \<Rightarrow> int \<Rightarrow> fault + oref" where
  "At st s i =
     (case s of
        None \<Rightarrow> Inl NilDeref
      | Some a \<Rightarrow>
          if 0 \<le> i \<and> i < int (length (entries (scopes st a)))
          then Inr (entries (scopes st a) ! nat i)
          else Inl IndexOutOfRange)"

text \<open>
  The fast path of \<^verbatim>\<open>Index\<close>: \<^verbatim>\<open>for i, obj := range s.entries\<close> comparing names only.
  The last argument is the loop index \<^verbatim>\<open>i\<close>.
\<close>

fun Index_name_loop :: "(oref \<Rightarrow> object) \<Rightarrow> string \<Rightarrow> oref list \<Rightarrow> int \<Rightarrow> int" where
  "Index_name_loop objs name [] i = - 1"
| "Index_name_loop objs name (obj # es) i =
     (if Name (objs obj) = name then i else Index_name_loop objs name es (i + 1))"

text \<open>
  The condition of the slow path,
  \<^verbatim>\<open>obj.Name() == name && (ast.IsExported(name) || obj.Pkg().path == pkg.path)\<close>,
  evaluated left to right with short circuit; \<^verbatim>\<open>obj.Pkg().path\<close> panics when \<^verbatim>\<open>Pkg()\<close>
  is nil. \<^verbatim>\<open>ast.IsExported\<close> belongs to the Go standard library and is the parameter
  \<open>exported\<close>.
\<close>

definition Index_cond :: "(string \<Rightarrow> bool) \<Rightarrow> object \<Rightarrow> Package \<Rightarrow> string \<Rightarrow> fault + bool" where
  "Index_cond exported obj pkg name =
     (if Name obj = name then
        (if exported name then Inr True
         else (case Pkg obj of
                 None \<Rightarrow> Inl NilDeref
               | Some p \<Rightarrow> Inr (path p = path pkg)))
      else Inr False)"

text \<open>The slow path: the same \<^verbatim>\<open>range\<close> loop, returning \<^verbatim>\<open>i\<close> where the condition holds.\<close>

fun Index_pkg_loop ::
  "(string \<Rightarrow> bool) \<Rightarrow> (oref \<Rightarrow> object) \<Rightarrow> Package \<Rightarrow> string \<Rightarrow> oref list \<Rightarrow> int \<Rightarrow> fault + int"
where
  "Index_pkg_loop exported objs pkg name [] i = Inr (- 1)"
| "Index_pkg_loop exported objs pkg name (obj # es) i =
     (case Index_cond exported (objs obj) pkg name of
        Inl f \<Rightarrow> Inl f
      | Inr True \<Rightarrow> Inr i
      | Inr False \<Rightarrow> Index_pkg_loop exported objs pkg name es (i + 1))"

definition Index ::
  "(string \<Rightarrow> bool) \<Rightarrow> state \<Rightarrow> sref option \<Rightarrow> Package option \<Rightarrow> string \<Rightarrow> fault + int"
where
  "Index exported st s pkg name =
     (case s of
        None \<Rightarrow> Inr (- 1)
      | Some a \<Rightarrow>
          (case pkg of
             None \<Rightarrow> Inr (Index_name_loop (objects st) name (entries (scopes st a)) 0)
           | Some p \<Rightarrow> Index_pkg_loop exported (objects st) p name (entries (scopes st a)) 0))"

text \<open>\<^verbatim>\<open>Lookup\<close> returns an \<^verbatim>\<open>Object\<close>; the nil interface value is \<open>None\<close>.\<close>

definition Lookup ::
  "(string \<Rightarrow> bool) \<Rightarrow> state \<Rightarrow> sref option \<Rightarrow> Package option \<Rightarrow> string \<Rightarrow> fault + oref option"
where
  "Lookup exported st s pkg name =
     (case Index exported st s pkg name of
        Inl f \<Rightarrow> Inl f
      | Inr i \<Rightarrow>
          if 0 \<le> i then (case At st s i of Inl f \<Rightarrow> Inl f | Inr obj \<Rightarrow> Inr (Some obj))
          else Inr None)"

text \<open>
  \<^verbatim>\<open>LookupParent\<close> is the loop \<^verbatim>\<open>for s != nil { ...; s = s.parent }\<close>. Nothing in the loop
  bounds it: on a cyclic parent chain it may never return, which is the value \<open>None\<close>.
\<close>

partial_function (option) LookupParent ::
  "(string \<Rightarrow> bool) \<Rightarrow> state \<Rightarrow> sref option \<Rightarrow> string \<Rightarrow> (fault + oref option) option"
where
  "LookupParent exported st s name =
     (case s of
        None \<Rightarrow> Some (Inr None)
      | Some a \<Rightarrow>
          (case Index exported st (Some a) None name of
             Inl f \<Rightarrow> Some (Inl f)
           | Inr i \<Rightarrow>
               if 0 \<le> i then
                 (case At st (Some a) i of
                    Inl f \<Rightarrow> Some (Inl f)
                  | Inr obj \<Rightarrow> Some (Inr (Some obj)))
               else LookupParent exported st (parent (scopes st a)) name))"

text \<open>
  The same loop with a ghost log: the scopes whose entries were searched, in the order
  of the visits.
\<close>

partial_function (option) LookupParent_visits ::
  "(string \<Rightarrow> bool) \<Rightarrow> state \<Rightarrow> sref option \<Rightarrow> string \<Rightarrow> sref list \<Rightarrow>
   ((fault + oref option) \<times> sref list) option"
where
  "LookupParent_visits exported st s name seen =
     (case s of
        None \<Rightarrow> Some (Inr None, seen)
      | Some a \<Rightarrow>
          (case Index exported st (Some a) None name of
             Inl f \<Rightarrow> Some (Inl f, seen @ [a])
           | Inr i \<Rightarrow>
               if 0 \<le> i then
                 (case At st (Some a) i of
                    Inl f \<Rightarrow> Some (Inl f, seen @ [a])
                  | Inr obj \<Rightarrow> Some (Inr (Some obj), seen @ [a]))
               else LookupParent_visits exported st (parent (scopes st a)) name (seen @ [a])))"

text \<open>
  Modelled from the spec: \<^verbatim>\<open>Object.setParent\<close> is declared outside scope.go. Section 4.3
  says that Insert "records this scope as the object's owner", and the comment of
  \<^verbatim>\<open>Insert\<close> that it "sets the object's scope to s": an assignment of the back-reference.
\<close>

definition setParent :: "oref \<Rightarrow> sref \<Rightarrow> state \<Rightarrow> state" where
  "setParent obj a st = st\<lparr>objects := (objects st)(obj := (objects st obj)\<lparr>owner := Some a\<rparr>)\<rparr>"

text \<open>
  \<^verbatim>\<open>Insert\<close> returns the conflicting entry, or nil after appending. The statement
  \<^verbatim>\<open>s.entries = append(s.entries, obj)\<close> dereferences the receiver.
\<close>

definition Insert ::
  "(string \<Rightarrow> bool) \<Rightarrow> state \<Rightarrow> sref option \<Rightarrow> oref \<Rightarrow> fault + (oref option \<times> state)"
where
  "Insert exported st s obj =
     (case Lookup exported st s (Pkg (objects st obj)) (Name (objects st obj)) of
        Inl f \<Rightarrow> Inl f
      | Inr (Some alt) \<Rightarrow> Inr (Some alt, st)
      | Inr None \<Rightarrow>
          (case s of
             None \<Rightarrow> Inl NilDeref
           | Some a \<Rightarrow>
               Inr (None,
                    setParent obj a
                      (st\<lparr>scopes := (scopes st)
                            (a := (scopes st a)\<lparr>entries := entries (scopes st a) @ [obj]\<rparr>)\<rparr>))))"

text \<open>
  \<^verbatim>\<open>String\<close>: the renderings of \<^verbatim>\<open>%p\<close> (a scope's address) and \<^verbatim>\<open>%T\<close> (an object's
  dynamic type) are parameters.
\<close>

definition String ::
  "(sref \<Rightarrow> string) \<Rightarrow> (oref \<Rightarrow> string) \<Rightarrow> state \<Rightarrow> sref option \<Rightarrow> string"
where
  "String fmt_p fmt_T st s =
     (case s of
        None \<Rightarrow> ''scope {}''
      | Some a \<Rightarrow>
          ''scope '' @ fmt_p a @ '' {'' @
          (if length (entries (scopes st a)) > 0
           then CHR 0x0A #
                concat (map (\<lambda>obj. CHR 0x09 # Name (objects st obj) @ CHR 0x09 # fmt_T obj @ [CHR 0x0A])
                          (entries (scopes st a)))
           else []) @
          ''}'' @ [CHR 0x0A])"

section \<open>The specification's vocabulary\<close>

text \<open>
  The identity rule of the specification (section 4.1), in its words: an unqualified
  query matches on the name alone; a qualified query matches an entry when its name
  equals the query name and the name is exported or the entry's originating package
  equals the qualifier. Packages are compared by their path. An entry without an
  originating package equals no qualifier.
\<close>

definition identity_rule :: "(string \<Rightarrow> bool) \<Rightarrow> Package option \<Rightarrow> string \<Rightarrow> object \<Rightarrow> bool" where
  "identity_rule exported q n e =
     (case q of
        None \<Rightarrow> Name e = n
      | Some p \<Rightarrow>
          Name e = n \<and>
          (exported n \<or> (case Pkg e of None \<Rightarrow> False | Some pe \<Rightarrow> path pe = path p)))"

text \<open>"First match in insertion order wins": the position of the first element that
  satisfies \<open>P\<close>, if there is one.\<close>

fun first_position :: "('a \<Rightarrow> bool) \<Rightarrow> 'a list \<Rightarrow> nat option" where
  "first_position P [] = None"
| "first_position P (x # xs) = (if P x then Some 0 else map_option Suc (first_position P xs))"

text \<open>"The matching position or not found", as the \<^verbatim>\<open>int\<close> that \<^verbatim>\<open>Index\<close> returns.\<close>

definition position_result :: "nat option \<Rightarrow> int" where
  "position_result r = (case r of None \<Rightarrow> - 1 | Some k \<Rightarrow> int k)"

text \<open>A scope declares a name when one of its entries carries it; the entry that an
  unqualified search of the scope finds is the first one.\<close>

definition declares :: "state \<Rightarrow> sref \<Rightarrow> string \<Rightarrow> bool" where
  "declares st a n = (\<exists>obj\<in>set (entries (scopes st a)). Name (objects st obj) = n)"

definition first_named :: "state \<Rightarrow> sref \<Rightarrow> string \<Rightarrow> oref option" where
  "first_named st a n = find (\<lambda>obj. Name (objects st obj) = n) (entries (scopes st a))"

text \<open>
  \<open>parent_path st s as t\<close>: following the parent links from \<open>s\<close> passes through the
  scopes \<open>as\<close>, in this order, and arrives at \<open>t\<close>. The ancestor chain of \<open>s\<close> is finite
  when a path from \<open>s\<close> arrives at the absent scope.
\<close>

fun parent_path :: "state \<Rightarrow> sref option \<Rightarrow> sref list \<Rightarrow> sref option \<Rightarrow> bool" where
  "parent_path st s [] t = (s = t)"
| "parent_path st s (a # as) t = (s = Some a \<and> parent_path st (parent (scopes st a)) as t)"

text \<open>
  A driver for sequences of declarations: it calls \<^verbatim>\<open>Insert\<close> once for each pair of a
  scope and an object, in order, and returns the result of each call with the final
  store; a panic ends the run.
\<close>

fun Insert_seq ::
  "(string \<Rightarrow> bool) \<Rightarrow> state \<Rightarrow> (sref option \<times> oref) list \<Rightarrow> fault + (oref option list \<times> state)"
where
  "Insert_seq exported st [] = Inr ([], st)"
| "Insert_seq exported st ((s, obj) # ops) =
     (case Insert exported st s obj of
        Inl f \<Rightarrow> Inl f
      | Inr (r, st') \<Rightarrow>
          (case Insert_seq exported st' ops of
             Inl f \<Rightarrow> Inl f
           | Inr (rs, st'') \<Rightarrow> Inr (r # rs, st'')))"

text \<open>
  Object \<open>x\<close> has the identity of object \<open>y\<close> when the identity rule, queried with the
  package and the name of \<open>x\<close>, matches \<open>y\<close>. Objects have pairwise distinct identities
  when no one of them has the identity of another.
\<close>

definition same_identity :: "(string \<Rightarrow> bool) \<Rightarrow> (oref \<Rightarrow> object) \<Rightarrow> oref \<Rightarrow> oref \<Rightarrow> bool" where
  "same_identity exported objs x y =
     identity_rule exported (Pkg (objs x)) (Name (objs x)) (objs y)"

fun distinct_identities :: "(string \<Rightarrow> bool) \<Rightarrow> (oref \<Rightarrow> object) \<Rightarrow> oref list \<Rightarrow> bool" where
  "distinct_identities exported objs [] = True"
| "distinct_identities exported objs (x # xs) =
     ((\<forall>y\<in>set xs. \<not> same_identity exported objs x y \<and> \<not> same_identity exported objs y x) \<and>
      distinct_identities exported objs xs)"

text \<open>An instance of the casing rule for the examples: the name starts with an ASCII
  capital letter.\<close>

definition upper_initial :: "string \<Rightarrow> bool" where
  "upper_initial name =
     (case name of [] \<Rightarrow> False | c # _ \<Rightarrow> c \<in> set ''ABCDEFGHIJKLMNOPQRSTUVWXYZ'')"

section \<open>Example states\<close>

definition pkg_math :: Package where "pkg_math = \<lparr>path = ''math''\<rparr>"
definition pkg_p :: Package where "pkg_p = \<lparr>path = ''p''\<rparr>"
definition pkg_q :: Package where "pkg_q = \<lparr>path = ''q''\<rparr>"

text \<open>Object 0 is \<^verbatim>\<open>math.Pi\<close>, objects 1 and 2 are the unexported \<^verbatim>\<open>pi\<close> of the
  packages \<^verbatim>\<open>p\<close> and \<^verbatim>\<open>q\<close>, object 3 is a built-in \<^verbatim>\<open>pi\<close> without a package, object 4
  is \<^verbatim>\<open>p.x\<close>, object 5 is the \<^verbatim>\<open>Pi\<close> of package \<^verbatim>\<open>p\<close>, and object 6 is a second
  \<^verbatim>\<open>pi\<close> of package \<^verbatim>\<open>p\<close>.\<close>

definition example_objects :: "oref \<Rightarrow> object" where
  "example_objects =
     (\<lambda>_. \<lparr>Name = ''_'', Pkg = None, owner = None\<rparr>)
     (0 := \<lparr>Name = ''Pi'', Pkg = Some pkg_math, owner = None\<rparr>,
      1 := \<lparr>Name = ''pi'', Pkg = Some pkg_p, owner = None\<rparr>,
      2 := \<lparr>Name = ''pi'', Pkg = Some pkg_q, owner = None\<rparr>,
      3 := \<lparr>Name = ''pi'', Pkg = None, owner = None\<rparr>,
      4 := \<lparr>Name = ''x'', Pkg = Some pkg_p, owner = None\<rparr>,
      5 := \<lparr>Name = ''Pi'', Pkg = Some pkg_p, owner = None\<rparr>,
      6 := \<lparr>Name = ''pi'', Pkg = Some pkg_p, owner = None\<rparr>)"

text \<open>A store with the given entries in scope 0, the root, and in its child, scope 1;
  scope 2 is an empty root.\<close>

definition example_state :: "oref list \<Rightarrow> oref list \<Rightarrow> state" where
  "example_state es0 es1 =
     \<lparr>scopes = (\<lambda>_. \<lparr>parent = None, entries = []\<rparr>)
        (0 := \<lparr>parent = None, entries = es0\<rparr>,
         1 := \<lparr>parent = Some 0, entries = es1\<rparr>),
      objects = example_objects,
      nscopes = 3\<rparr>"


section \<open>The loops of Index\<close>

lemma first_position_None: "first_position P xs = None \<longleftrightarrow> (\<forall>x\<in>set xs. \<not> P x)"
  by (induction xs) auto

lemma first_position_Some:
  "first_position P xs = Some k \<longleftrightarrow> k < length xs \<and> P (xs ! k) \<and> (\<forall>j<k. \<not> P (xs ! j))"
proof (induction xs arbitrary: k)
  case Nil
  then show ?case by simp
next
  case (Cons x xs)
  show ?case
  proof (cases "P x")
    case True
    then show ?thesis by (cases k) auto
  next
    case False
    show ?thesis
    proof (cases k)
      case 0
      with False show ?thesis by auto
    next
      case (Suc m)
      have "(\<forall>j<Suc m. \<not> P ((x # xs) ! j)) \<longleftrightarrow> (\<forall>j<m. \<not> P (xs ! j))"
        using False by (auto simp: less_Suc_eq_0_disj)
      with Suc False Cons.IH [of m] show ?thesis by auto
    qed
  qed
qed

lemma first_position_find: "find P xs = map_option (\<lambda>k. xs ! k) (first_position P xs)"
  by (induction xs) (auto simp: option.map_comp comp_def)

lemma name_loop_first:
  "Index_name_loop objs n es i =
     (case first_position (\<lambda>obj. Name (objs obj) = n) es of None \<Rightarrow> - 1 | Some k \<Rightarrow> i + int k)"
  by (induction es arbitrary: i) (auto split: option.splits)

lemma identity_rule_unqualified: "identity_rule ex None n e \<longleftrightarrow> Name e = n"
  by (simp add: identity_rule_def)

lemma identity_rule_qualified:
  "identity_rule ex (Some p) n e \<longleftrightarrow>
     Name e = n \<and> (ex n \<or> (\<exists>pe. Pkg e = Some pe \<and> path pe = path p))"
  by (auto simp: identity_rule_def split: option.splits)

lemma Index_cond_True: "Index_cond ex e p n = Inr True \<longleftrightarrow> identity_rule ex (Some p) n e"
  by (auto simp: Index_cond_def identity_rule_qualified split: option.splits)

lemma Index_cond_fault:
  "Index_cond ex e p n = Inl f \<longleftrightarrow> f = NilDeref \<and> Name e = n \<and> \<not> ex n \<and> Pkg e = None"
  by (auto simp: Index_cond_def split: option.splits)

lemma Index_cond_False:
  "Index_cond ex e p n = Inr False \<longleftrightarrow>
     \<not> identity_rule ex (Some p) n e \<and> \<not> (Name e = n \<and> \<not> ex n \<and> Pkg e = None)"
  by (auto simp: Index_cond_def identity_rule_qualified split: option.splits)

lemma pkg_loop_sound:
  "Index_pkg_loop ex objs p n es i = Inr r \<Longrightarrow>
   r = (case first_position (\<lambda>obj. identity_rule ex (Some p) n (objs obj)) es of
          None \<Rightarrow> - 1 | Some k \<Rightarrow> i + int k)"
proof (induction es arbitrary: i)
  case Nil
  then show ?case by simp
next
  case (Cons obj es)
  show ?case
  proof (cases "Index_cond ex (objs obj) p n")
    case (Inl f)
    with Cons.prems show ?thesis by simp
  next
    case (Inr b)
    show ?thesis
    proof (cases b)
      case True
      with Inr have "identity_rule ex (Some p) n (objs obj)"
        by (simp add: Index_cond_True)
      with Cons.prems Inr True show ?thesis by simp
    next
      case False
      with Inr have "\<not> identity_rule ex (Some p) n (objs obj)"
        by (simp add: Index_cond_False)
      moreover from Cons.prems Inr False
      have "Index_pkg_loop ex objs p n es (i + 1) = Inr r" by simp
      ultimately show ?thesis
        using Cons.IH [of "i + 1"] by (auto split: option.splits)
    qed
  qed
qed

lemma pkg_loop_total:
  "\<forall>obj\<in>set es. Name (objs obj) = n \<and> \<not> ex n \<longrightarrow> Pkg (objs obj) \<noteq> None \<Longrightarrow>
   \<exists>r. Index_pkg_loop ex objs p n es i = Inr r"
proof (induction es arbitrary: i)
  case Nil
  show ?case by simp
next
  case (Cons obj es)
  from Cons.prems have "\<And>f. Index_cond ex (objs obj) p n \<noteq> Inl f"
    by (auto simp: Index_cond_fault)
  then obtain b where b: "Index_cond ex (objs obj) p n = Inr b"
    by (cases "Index_cond ex (objs obj) p n") auto
  from Cons.prems Cons.IH [of "i + 1"]
  obtain r where "Index_pkg_loop ex objs p n es (i + 1) = Inr r" by auto
  with b show ?case by (cases b) auto
qed

section \<open>Index, At and Lookup on a scope\<close>

lemma Index_unqualified:
  "Index ex st (Some a) None n =
     Inr (position_result (first_position (\<lambda>obj. Name (objects st obj) = n) (entries (scopes st a))))"
  by (simp add: Index_def name_loop_first position_result_def split: option.splits)

lemma Index_qualified_sound:
  assumes "Index ex st (Some a) (Some q) n = Inr r"
  shows "r = position_result
               (first_position (\<lambda>obj. identity_rule ex (Some q) n (objects st obj))
                  (entries (scopes st a)))"
proof -
  from assms have "Index_pkg_loop ex (objects st) q n (entries (scopes st a)) 0 = Inr r"
    by (simp add: Index_def)
  from pkg_loop_sound [OF this] show ?thesis
    by (simp add: position_result_def split: option.splits)
qed

lemma Index_qualified_total:
  assumes "\<forall>obj\<in>set (entries (scopes st a)).
             Name (objects st obj) = n \<and> \<not> ex n \<longrightarrow> Pkg (objects st obj) \<noteq> None"
  shows "Index ex st (Some a) (Some q) n =
           Inr (position_result
                  (first_position (\<lambda>obj. identity_rule ex (Some q) n (objects st obj))
                     (entries (scopes st a))))"
proof -
  from assms have "\<exists>r. Index_pkg_loop ex (objects st) q n (entries (scopes st a)) 0 = Inr r"
    by (rule pkg_loop_total [where objs = "objects st" and es = "entries (scopes st a)"])
  then obtain r where "Index_pkg_loop ex (objects st) q n (entries (scopes st a)) 0 = Inr r" ..
  then have r: "Index ex st (Some a) (Some q) n = Inr r"
    by (simp add: Index_def)
  from Index_qualified_sound [OF r] r show ?thesis by simp
qed

lemma At_nth:
  "k < length (entries (scopes st a)) \<Longrightarrow> At st (Some a) (int k) = Inr (entries (scopes st a) ! k)"
  by (simp add: At_def)

lemma Lookup_of_Index:
  assumes "Index ex st (Some a) q n = Inr (position_result (first_position P (entries (scopes st a))))"
  shows "Lookup ex st (Some a) q n = Inr (find P (entries (scopes st a)))"
proof (cases "first_position P (entries (scopes st a))")
  case None
  with assms show ?thesis
    by (simp add: Lookup_def position_result_def first_position_find)
next
  case (Some k)
  then have "k < length (entries (scopes st a))"
    by (simp add: first_position_Some)
  with assms Some show ?thesis
    by (simp add: Lookup_def position_result_def first_position_find At_nth)
qed

lemma Lookup_returns_Index:
  "Lookup ex st s q n = Inr r \<Longrightarrow> \<exists>i. Index ex st s q n = Inr i"
  by (cases "Index ex st s q n") (simp_all add: Lookup_def)

lemma Lookup_unqualified: "Lookup ex st (Some a) None n = Inr (first_named st a n)"
  unfolding first_named_def by (rule Lookup_of_Index) (rule Index_unqualified)

lemma Lookup_qualified_sound:
  assumes "Lookup ex st (Some a) (Some q) n = Inr r"
  shows "r = find (\<lambda>obj. identity_rule ex (Some q) n (objects st obj)) (entries (scopes st a))"
proof -
  from Lookup_returns_Index [OF assms]
  obtain i where i: "Index ex st (Some a) (Some q) n = Inr i" ..
  from Index_qualified_sound [OF i] i
  have "Index ex st (Some a) (Some q) n =
          Inr (position_result
                 (first_position (\<lambda>obj. identity_rule ex (Some q) n (objects st obj))
                    (entries (scopes st a))))"
    by simp
  from Lookup_of_Index [OF this] assms show ?thesis by simp
qed

lemma Lookup_qualified_total:
  assumes "\<forall>obj\<in>set (entries (scopes st a)).
             Name (objects st obj) = n \<and> \<not> ex n \<longrightarrow> Pkg (objects st obj) \<noteq> None"
  shows "Lookup ex st (Some a) (Some q) n =
           Inr (find (\<lambda>obj. identity_rule ex (Some q) n (objects st obj)) (entries (scopes st a)))"
proof (rule Lookup_of_Index)
  from assms show "Index ex st (Some a) (Some q) n =
      Inr (position_result
             (first_position (\<lambda>obj. identity_rule ex (Some q) n (objects st obj))
                (entries (scopes st a))))"
    by (rule Index_qualified_total [where st = st and a = a])
qed

lemma Index_absent: "Index ex st None q n = Inr (- 1)"
  by (simp add: Index_def)

lemma Lookup_absent: "Lookup ex st None q n = Inr None"
  by (simp add: Lookup_def Index_def)

section \<open>LookupParent along the parent links\<close>

lemma LookupParent_absent: "LookupParent ex st None n = Some (Inr None)"
  by (subst LookupParent.simps) simp

lemma LookupParent_step:
  "LookupParent ex st (Some a) n =
     (case first_named st a n of
        Some obj \<Rightarrow> Some (Inr (Some obj))
      | None \<Rightarrow> LookupParent ex st (parent (scopes st a)) n)"
proof (cases "first_position (\<lambda>obj. Name (objects st obj) = n) (entries (scopes st a))")
  case None
  then show ?thesis
    by (subst LookupParent.simps)
       (simp add: Index_unqualified position_result_def first_named_def first_position_find)
next
  case (Some k)
  then have "k < length (entries (scopes st a))"
    by (simp add: first_position_Some)
  with Some show ?thesis
    by (subst LookupParent.simps)
       (simp add: Index_unqualified position_result_def first_named_def first_position_find At_nth)
qed

lemma LookupParent_visits_absent: "LookupParent_visits ex st None n seen = Some (Inr None, seen)"
  by (subst LookupParent_visits.simps) simp

lemma LookupParent_visits_step:
  "LookupParent_visits ex st (Some a) n seen =
     (case first_named st a n of
        Some obj \<Rightarrow> Some (Inr (Some obj), seen @ [a])
      | None \<Rightarrow> LookupParent_visits ex st (parent (scopes st a)) n (seen @ [a]))"
proof (cases "first_position (\<lambda>obj. Name (objects st obj) = n) (entries (scopes st a))")
  case None
  then show ?thesis
    by (subst LookupParent_visits.simps)
       (simp add: Index_unqualified position_result_def first_named_def first_position_find)
next
  case (Some k)
  then have "k < length (entries (scopes st a))"
    by (simp add: first_position_Some)
  with Some show ?thesis
    by (subst LookupParent_visits.simps)
       (simp add: Index_unqualified position_result_def first_named_def first_position_find At_nth)
qed

lemma first_named_None: "first_named st a n = None \<longleftrightarrow> \<not> declares st a n"
  by (auto simp: first_named_def declares_def find_None_iff)

lemma LookupParent_declares:
  assumes "declares st b n"
  shows "LookupParent ex st (Some b) n = Some (Inr (first_named st b n))"
proof -
  from assms obtain obj where "first_named st b n = Some obj"
    by (cases "first_named st b n") (simp_all add: first_named_None)
  then show ?thesis by (simp add: LookupParent_step)
qed

lemma LookupParent_path:
  assumes "parent_path st s as t" and "\<forall>a\<in>set as. \<not> declares st a n"
  shows "LookupParent ex st s n = LookupParent ex st t n"
  using assms
proof (induction as arbitrary: s)
  case Nil
  then show ?case by simp
next
  case (Cons a as)
  then have "first_named st a n = None" and "s = Some a"
    by (simp_all add: first_named_None)
  with Cons show ?case by (simp add: LookupParent_step)
qed

lemma LookupParent_visits_path:
  assumes "parent_path st s as t" and "\<forall>a\<in>set as. \<not> declares st a n"
  shows "LookupParent_visits ex st s n seen = LookupParent_visits ex st t n (seen @ as)"
  using assms
proof (induction as arbitrary: s seen)
  case Nil
  then show ?case by simp
next
  case (Cons a as)
  then have "first_named st a n = None" and "s = Some a"
    by (simp_all add: first_named_None)
  with Cons.prems Cons.IH [of "parent (scopes st a)" "seen @ [a]"] show ?case
    by (simp add: LookupParent_visits_step)
qed

lemma parent_path_append:
  "parent_path st s (xs @ ys) t \<longleftrightarrow> (\<exists>m. parent_path st s xs m \<and> parent_path st m ys t)"
  by (induction xs arbitrary: s) auto

lemma parent_path_unique:
  "parent_path st s as None \<Longrightarrow> parent_path st s bs None \<Longrightarrow> as = bs"
proof (induction as arbitrary: s bs)
  case Nil
  then show ?case by (cases bs) auto
next
  case (Cons a as)
  then show ?case by (cases bs) auto
qed

lemma parent_path_distinct:
  "parent_path st s as None \<Longrightarrow> distinct as"
proof (induction as arbitrary: s)
  case Nil
  show ?case by simp
next
  case (Cons a as)
  then have tail: "parent_path st (parent (scopes st a)) as None" and s: "s = Some a"
    by simp_all
  have "a \<notin> set as"
  proof
    assume "a \<in> set as"
    then obtain xs ys where as: "as = xs @ a # ys"
      by (auto dest: split_list)
    with tail obtain m where "parent_path st m (a # ys) None"
      by (auto simp: parent_path_append)
    then have "parent_path st (Some a) (a # ys) None" by simp
    moreover from tail have "parent_path st (Some a) (a # as) None" by simp
    ultimately have "a # ys = a # as" by (rule parent_path_unique)
    with as show False by simp
  qed
  with Cons.IH [OF tail] show ?case by simp
qed

text \<open>The ghost log does not change the loop: the two functions return together, and
  with the same result.\<close>

lemma LookupParent_visits_result:
  assumes "LookupParent_visits ex st s n seen = Some (r, vs)"
  shows "LookupParent ex st s n = Some r"
proof -
  have "LookupParent ex st s n = Some (fst y)"
    if "LookupParent_visits ex st s n seen = Some y" for y
  proof (rule LookupParent_visits.raw_induct
      [where P = "\<lambda>ex st s n seen y. LookupParent ex st s n = Some (fst y)", OF _ that])
    fix f ex st s n seen y
    assume IH: "\<And>st s n seen b y. f st s n seen b = Some y \<Longrightarrow>
        LookupParent st s n seen = Some (fst y)"
      and step: "(case s of
          None \<Rightarrow> Some (Inr None, seen)
        | Some a \<Rightarrow>
            (case Index ex st (Some a) None n of
               Inl f \<Rightarrow> Some (Inl f, seen @ [a])
             | Inr i \<Rightarrow>
                 if 0 \<le> i then
                   (case At st (Some a) i of
                      Inl f \<Rightarrow> Some (Inl f, seen @ [a])
                    | Inr obj \<Rightarrow> Some (Inr (Some obj), seen @ [a]))
                 else f ex st (parent (scopes st a)) n (seen @ [a]))) = Some y"
    show "LookupParent ex st s n = Some (fst y)"
      using step
      by (subst LookupParent.simps)
         (auto split: option.splits sum.splits if_splits dest: IH)
  qed
  from this [OF assms] show ?thesis by simp
qed

lemma LookupParent_result_visits:
  assumes "LookupParent ex st s n = Some r"
  shows "\<exists>vs. LookupParent_visits ex st s n seen = Some (r, seen @ vs)"
proof -
  have "\<forall>seen. \<exists>vs. LookupParent_visits ex st s n seen = Some (r, seen @ vs)"
  proof (rule LookupParent.raw_induct
      [where P = "\<lambda>ex st s n r. \<forall>seen. \<exists>vs. LookupParent_visits ex st s n seen = Some (r, seen @ vs)",
       OF _ assms])
    fix f ex st s n r
    assume IH: "\<And>st s n b y. f st s n b = Some y \<Longrightarrow>
        \<forall>seen. \<exists>vs. LookupParent_visits st s n b seen = Some (y, seen @ vs)"
      and step: "(case s of
          None \<Rightarrow> Some (Inr None)
        | Some a \<Rightarrow>
            (case Index ex st (Some a) None n of
               Inl f \<Rightarrow> Some (Inl f)
             | Inr i \<Rightarrow>
                 if 0 \<le> i then
                   (case At st (Some a) i of
                      Inl f \<Rightarrow> Some (Inl f)
                    | Inr obj \<Rightarrow> Some (Inr (Some obj)))
                 else f ex st (parent (scopes st a)) n)) = Some r"
    show "\<forall>seen. \<exists>vs. LookupParent_visits ex st s n seen = Some (r, seen @ vs)"
    proof
      fix seen
      show "\<exists>vs. LookupParent_visits ex st s n seen = Some (r, seen @ vs)"
      proof (cases s)
        case None
        with step show ?thesis by (simp add: LookupParent_visits_absent)
      next
        case (Some a)
        show ?thesis
        proof (cases "first_named st a n")
          case None
          then have "Index ex st (Some a) None n = Inr (- 1)"
            by (simp add: Index_unqualified first_named_def first_position_find position_result_def
                  split: option.splits)
          with step Some have "f ex st (parent (scopes st a)) n = Some r" by simp
          from IH [OF this] obtain vs where
            "LookupParent_visits ex st (parent (scopes st a)) n (seen @ [a]) = Some (r, (seen @ [a]) @ vs)"
            by blast
          with Some None show ?thesis by (simp add: LookupParent_visits_step)
        next
          case found: (Some obj)
          with Some have "LookupParent ex st s n = Some (Inr (Some obj))"
            by (simp add: LookupParent_step)
          moreover have "LookupParent ex st s n = Some r"
            using step Some found
            by (subst LookupParent.simps)
               (auto simp: Index_unqualified first_named_def first_position_find position_result_def
                  split: option.splits sum.splits if_splits)
          ultimately have "r = Inr (Some obj)" by simp
          with Some found show ?thesis by (simp add: LookupParent_visits_step)
        qed
      qed
    qed
  qed
  then show ?thesis by blast
qed

section \<open>Panics of the qualified search\<close>





section \<open>Allocation\<close>

lemma NewScope_fresh:
  assumes "NewScope p st = (a, st')"
  shows "a = nscopes st \<and> parent (scopes st' a) = p \<and> entries (scopes st' a) = [] \<and>
         (\<forall>b. b \<noteq> a \<longrightarrow> scopes st' b = scopes st b) \<and> objects st' = objects st"
  using assms by (auto simp: NewScope_def)

section \<open>Insert\<close>



lemma Insert_append:
  "Lookup ex st (Some a) (Pkg (objects st obj)) (Name (objects st obj)) = Inr None \<Longrightarrow>
   Insert ex st (Some a) obj =
     Inr (None, setParent obj a
                  (st\<lparr>scopes := (scopes st)
                        (a := (scopes st a)\<lparr>entries := entries (scopes st a) @ [obj]\<rparr>)\<rparr>))"
  by (simp add: Insert_def)


lemma setParent_scopes: "scopes (setParent obj a st) = scopes st"
  by (simp add: setParent_def)

lemma setParent_objects:
  "objects (setParent obj a st) x =
     (if x = obj then (objects st obj)\<lparr>owner := Some a\<rparr> else objects st x)"
  by (simp add: setParent_def)

section \<open>Sequences of insertions\<close>

lemma same_identity_cong:
  assumes "\<And>x. Name (objs' x) = Name (objs x)" and "\<And>x. Pkg (objs' x) = Pkg (objs x)"
  shows "same_identity ex objs' x y = same_identity ex objs x y"
  by (simp add: same_identity_def identity_rule_def assms split: option.splits)

lemma distinct_identities_cong:
  assumes "\<And>x. Name (objs' x) = Name (objs x)" and "\<And>x. Pkg (objs' x) = Pkg (objs x)"
  shows "distinct_identities ex objs' xs = distinct_identities ex objs xs"
  by (induction xs) (simp_all add: same_identity_cong [of objs' objs, OF assms])

lemma Lookup_no_clash:
  assumes "\<forall>e\<in>set (entries (scopes st a)).
      \<not> same_identity ex (objects st) x e \<and> \<not> same_identity ex (objects st) e x"
  shows "Lookup ex st (Some a) (Pkg (objects st x)) (Name (objects st x)) = Inr None"
proof (cases "Pkg (objects st x)")
  case None
  with assms have "\<forall>e\<in>set (entries (scopes st a)). Name (objects st e) \<noteq> Name (objects st x)"
    by (simp add: same_identity_def identity_rule_unqualified)
  with None show ?thesis
    by (simp add: Lookup_unqualified first_named_def find_None_iff)
next
  case (Some q)
  have "Name (objects st e) = Name (objects st x) \<longrightarrow> Pkg (objects st e) \<noteq> None"
    if "e \<in> set (entries (scopes st a))" for e
  proof
    assume n: "Name (objects st e) = Name (objects st x)"
    from assms that have differ: "\<not> same_identity ex (objects st) e x" by simp
    show "Pkg (objects st e) \<noteq> None"
    proof
      assume "Pkg (objects st e) = None"
      with n have "same_identity ex (objects st) e x"
        by (simp add: same_identity_def identity_rule_unqualified)
      with differ show False by simp
    qed
  qed
  then have "\<forall>e\<in>set (entries (scopes st a)).
      Name (objects st e) = Name (objects st x) \<and> \<not> ex (Name (objects st x)) \<longrightarrow>
      Pkg (objects st e) \<noteq> None"
    by simp
  with Lookup_qualified_total [of st a "Name (objects st x)" ex q]
  have "Lookup ex st (Some a) (Some q) (Name (objects st x)) =
      Inr (find (\<lambda>e. identity_rule ex (Some q) (Name (objects st x)) (objects st e))
             (entries (scopes st a)))"
    by simp
  moreover from assms Some
  have "\<forall>e\<in>set (entries (scopes st a)).
      \<not> identity_rule ex (Some q) (Name (objects st x)) (objects st e)"
    by (simp add: same_identity_def)
  ultimately show ?thesis using Some by (simp add: find_None_iff)
qed

lemma Insert_seq_distinct:
  assumes "distinct_identities ex (objects st) xs"
    and "\<forall>e\<in>set (entries (scopes st a)). \<forall>x\<in>set xs.
           \<not> same_identity ex (objects st) x e \<and> \<not> same_identity ex (objects st) e x"
  shows "\<exists>st'. Insert_seq ex st (map (Pair (Some a)) xs) = Inr (replicate (length xs) None, st') \<and>
           entries (scopes st' a) = entries (scopes st a) @ xs"
  using assms
proof (induction xs arbitrary: st)
  case Nil
  show ?case by simp
next
  case (Cons x xs)
  let ?st1 = "setParent x a
      (st\<lparr>scopes := (scopes st)(a := (scopes st a)\<lparr>entries := entries (scopes st a) @ [x]\<rparr>)\<rparr>)"
  from Cons.prems(2) have "\<forall>e\<in>set (entries (scopes st a)).
      \<not> same_identity ex (objects st) x e \<and> \<not> same_identity ex (objects st) e x"
    by simp
  from Insert_append [OF Lookup_no_clash [OF this]]
  have ins: "Insert ex st (Some a) x = Inr (None, ?st1)" .
  have names: "\<And>y. Name (objects ?st1 y) = Name (objects st y)"
    and pkgs: "\<And>y. Pkg (objects ?st1 y) = Pkg (objects st y)"
    by (simp_all add: setParent_objects)
  note same = same_identity_cong [of "objects ?st1" "objects st", OF names pkgs]
  have es1: "entries (scopes ?st1 a) = entries (scopes st a) @ [x]"
    by (simp add: setParent_scopes)
  from Cons.prems(1) have d1: "distinct_identities ex (objects ?st1) xs"
    by (simp add: distinct_identities_cong [of "objects ?st1" "objects st", OF names pkgs])
  from Cons.prems have "\<forall>e\<in>set (entries (scopes ?st1 a)). \<forall>y\<in>set xs.
      \<not> same_identity ex (objects ?st1) y e \<and> \<not> same_identity ex (objects ?st1) e y"
    unfolding es1 same by auto
  from Cons.IH [OF d1 this] obtain st' where
    "Insert_seq ex ?st1 (map (Pair (Some a)) xs) = Inr (replicate (length xs) None, st')"
    "entries (scopes st' a) = entries (scopes ?st1 a) @ xs"
    by blast
  with ins es1 show ?case by simp
qed

section \<open>The claims\<close>

text \<open>
  C1 (qualified identity rule). The condition that \<^verbatim>\<open>Index\<close> evaluates on an entry for a
  qualifier \<open>q\<close> and a name \<open>n\<close> holds exactly when the identity rule does: the names are
  equal, and \<open>n\<close> is exported or the entry's originating package has the path of \<open>q\<close>.
  Whenever \<^verbatim>\<open>Index\<close> returns, the result is the position of the first entry that the rule
  matches, or \<open>-1\<close> when it matches none, and \<^verbatim>\<open>Lookup\<close> returns that entry or nil; both
  return whenever each unexported entry of that name has an originating package. For two
  entries of one name from different packages: an unexported name looked up from a third
  package matches neither, an exported name matches (the first) whatever the qualifier,
  and an unexported name looked up from the package of one of them matches that one.
\<close>

theorem Index_qualified_identity_rule:
  "(Index_cond exported e q n = Inr True \<longleftrightarrow> identity_rule exported (Some q) n e) \<and>
   (identity_rule exported (Some q) n e \<longleftrightarrow>
      Name e = n \<and> (exported n \<or> (\<exists>p. Pkg e = Some p \<and> path p = path q))) \<and>
   (\<forall>r. Index exported st (Some a) (Some q) n = Inr r \<longrightarrow>
      r = position_result
            (first_position (\<lambda>obj. identity_rule exported (Some q) n (objects st obj))
               (entries (scopes st a)))) \<and>
   (\<forall>r. Lookup exported st (Some a) (Some q) n = Inr r \<longrightarrow>
      r = find (\<lambda>obj. identity_rule exported (Some q) n (objects st obj))
            (entries (scopes st a))) \<and>
   ((\<forall>obj\<in>set (entries (scopes st a)).
       Name (objects st obj) = n \<and> \<not> exported n \<longrightarrow> Pkg (objects st obj) \<noteq> None) \<longrightarrow>
    Index exported st (Some a) (Some q) n =
      Inr (position_result
             (first_position (\<lambda>obj. identity_rule exported (Some q) n (objects st obj))
                (entries (scopes st a)))) \<and>
    Lookup exported st (Some a) (Some q) n =
      Inr (find (\<lambda>obj. identity_rule exported (Some q) n (objects st obj))
             (entries (scopes st a)))) \<and>
   (entries (scopes st a) = [o1, o2] \<and>
    Name (objects st o1) = n \<and> Name (objects st o2) = n \<and>
    Pkg (objects st o1) = Some p1 \<and> Pkg (objects st o2) = Some p2 \<and> path p1 \<noteq> path p2 \<longrightarrow>
      (\<not> exported n \<and> path q \<noteq> path p1 \<and> path q \<noteq> path p2 \<longrightarrow>
         Lookup exported st (Some a) (Some q) n = Inr None) \<and>
      (exported n \<longrightarrow> Lookup exported st (Some a) (Some q) n = Inr (Some o1)) \<and>
      (\<not> exported n \<and> path q = path p1 \<longrightarrow>
         Lookup exported st (Some a) (Some q) n = Inr (Some o1)) \<and>
      (\<not> exported n \<and> path q = path p2 \<longrightarrow>
         Lookup exported st (Some a) (Some q) n = Inr (Some o2)))"
proof -
  let ?rule = "\<lambda>obj. identity_rule exported (Some q) n (objects st obj)"
  have c1: "Index_cond exported e q n = Inr True \<longleftrightarrow> identity_rule exported (Some q) n e"
    by (rule Index_cond_True)
  have c2: "identity_rule exported (Some q) n e \<longleftrightarrow>
      Name e = n \<and> (exported n \<or> (\<exists>p. Pkg e = Some p \<and> path p = path q))"
    by (rule identity_rule_qualified)
  have c3: "\<forall>r. Index exported st (Some a) (Some q) n = Inr r \<longrightarrow>
      r = position_result (first_position ?rule (entries (scopes st a)))"
    by (simp add: Index_qualified_sound)
  have c4: "\<forall>r. Lookup exported st (Some a) (Some q) n = Inr r \<longrightarrow>
      r = find ?rule (entries (scopes st a))"
    by (simp add: Lookup_qualified_sound)
  have c5: "(\<forall>obj\<in>set (entries (scopes st a)).
       Name (objects st obj) = n \<and> \<not> exported n \<longrightarrow> Pkg (objects st obj) \<noteq> None) \<longrightarrow>
    Index exported st (Some a) (Some q) n =
      Inr (position_result (first_position ?rule (entries (scopes st a)))) \<and>
    Lookup exported st (Some a) (Some q) n = Inr (find ?rule (entries (scopes st a)))"
    using Index_qualified_total [of st a n exported q] Lookup_qualified_total [of st a n exported q]
    by blast
  have c6: "entries (scopes st a) = [o1, o2] \<and>
    Name (objects st o1) = n \<and> Name (objects st o2) = n \<and>
    Pkg (objects st o1) = Some p1 \<and> Pkg (objects st o2) = Some p2 \<and> path p1 \<noteq> path p2 \<longrightarrow>
      (\<not> exported n \<and> path q \<noteq> path p1 \<and> path q \<noteq> path p2 \<longrightarrow>
         Lookup exported st (Some a) (Some q) n = Inr None) \<and>
      (exported n \<longrightarrow> Lookup exported st (Some a) (Some q) n = Inr (Some o1)) \<and>
      (\<not> exported n \<and> path q = path p1 \<longrightarrow>
         Lookup exported st (Some a) (Some q) n = Inr (Some o1)) \<and>
      (\<not> exported n \<and> path q = path p2 \<longrightarrow>
         Lookup exported st (Some a) (Some q) n = Inr (Some o2))"
  proof (intro impI, elim conjE)
    assume es: "entries (scopes st a) = [o1, o2]"
      and names: "Name (objects st o1) = n" "Name (objects st o2) = n"
      and pkgs: "Pkg (objects st o1) = Some p1" "Pkg (objects st o2) = Some p2"
      and differ: "path p1 \<noteq> path p2"
    from es pkgs have "\<forall>obj\<in>set (entries (scopes st a)).
        Name (objects st obj) = n \<and> \<not> exported n \<longrightarrow> Pkg (objects st obj) \<noteq> None"
      by simp
    with Lookup_qualified_total [of st a n exported q] es
    have l: "Lookup exported st (Some a) (Some q) n = Inr (find ?rule [o1, o2])"
      by simp
    have r1: "?rule o1 \<longleftrightarrow> exported n \<or> path p1 = path q"
      using names pkgs by (simp add: identity_rule_qualified)
    have r2: "?rule o2 \<longleftrightarrow> exported n \<or> path p2 = path q"
      using names pkgs by (simp add: identity_rule_qualified)
    from differ show "(\<not> exported n \<and> path q \<noteq> path p1 \<and> path q \<noteq> path p2 \<longrightarrow>
         Lookup exported st (Some a) (Some q) n = Inr None) \<and>
      (exported n \<longrightarrow> Lookup exported st (Some a) (Some q) n = Inr (Some o1)) \<and>
      (\<not> exported n \<and> path q = path p1 \<longrightarrow>
         Lookup exported st (Some a) (Some q) n = Inr (Some o1)) \<and>
      (\<not> exported n \<and> path q = path p2 \<longrightarrow>
         Lookup exported st (Some a) (Some q) n = Inr (Some o2))"
      unfolding l by (auto simp: r1 r2)
  qed
  from c1 c2 c3 c4 c5 c6 show ?thesis by (intro conjI)
qed

theorem Index_qualified_identity_rule_witness:
  "Lookup upper_initial (example_state [1, 2] []) (Some 0) (Some pkg_math) ''pi'' = Inr None \<and>
   Lookup upper_initial (example_state [1, 2] []) (Some 0) (Some pkg_q) ''pi'' = Inr (Some 2) \<and>
   Lookup upper_initial (example_state [0, 5] []) (Some 0) (Some pkg_q) ''Pi'' = Inr (Some 0)"
proof -
  have lower: "\<not> upper_initial ''pi''" and upper: "upper_initial ''Pi''"
    by (simp_all add: upper_initial_def)
  have paths: "path pkg_p \<noteq> path pkg_q" "path pkg_math \<noteq> path pkg_p"
      "path pkg_math \<noteq> path pkg_q"
    by (simp_all add: pkg_p_def pkg_q_def pkg_math_def)
  have s1: "entries (scopes (example_state [1, 2] []) 0) = [1, 2]"
      "Name (objects (example_state [1, 2] []) 1) = ''pi''"
      "Name (objects (example_state [1, 2] []) 2) = ''pi''"
      "Pkg (objects (example_state [1, 2] []) 1) = Some pkg_p"
      "Pkg (objects (example_state [1, 2] []) 2) = Some pkg_q"
    by (simp_all add: example_state_def example_objects_def)
  have s2: "entries (scopes (example_state [0, 5] []) 0) = [0, 5]"
      "Name (objects (example_state [0, 5] []) 0) = ''Pi''"
      "Name (objects (example_state [0, 5] []) 5) = ''Pi''"
      "Pkg (objects (example_state [0, 5] []) 0) = Some pkg_math"
      "Pkg (objects (example_state [0, 5] []) 5) = Some pkg_p"
    by (simp_all add: example_state_def example_objects_def)
  have "Lookup upper_initial (example_state [1, 2] []) (Some 0) (Some pkg_math) ''pi'' = Inr None"
    using Index_qualified_identity_rule
      [of upper_initial "example_objects 1" pkg_math "''pi''" "example_state [1, 2] []" 0
          1 2 pkg_p pkg_q, THEN conjunct2, THEN conjunct2, THEN conjunct2, THEN conjunct2,
          THEN conjunct2] lower paths s1
    by simp
  moreover
  have "Lookup upper_initial (example_state [1, 2] []) (Some 0) (Some pkg_q) ''pi'' = Inr (Some 2)"
    using Index_qualified_identity_rule
      [of upper_initial "example_objects 1" pkg_q "''pi''" "example_state [1, 2] []" 0
          1 2 pkg_p pkg_q, THEN conjunct2, THEN conjunct2, THEN conjunct2, THEN conjunct2,
          THEN conjunct2] lower paths s1
    by simp
  moreover
  have "Lookup upper_initial (example_state [0, 5] []) (Some 0) (Some pkg_q) ''Pi'' = Inr (Some 0)"
    using Index_qualified_identity_rule
      [of upper_initial "example_objects 0" pkg_q "''Pi''" "example_state [0, 5] []" 0
          0 5 pkg_math pkg_p, THEN conjunct2, THEN conjunct2, THEN conjunct2, THEN conjunct2,
          THEN conjunct2] upper paths s2
    by simp
  ultimately show ?thesis by simp
qed

text \<open>
  C2 (shadowing, innermost wins). \<^verbatim>\<open>LookupParent\<close> searches the scope it starts at and
  then each ancestor along the parent links, by name alone: when the links lead from \<open>s\<close>
  through scopes \<open>as\<close> that do not declare the name to a scope \<open>t\<close> that does, or to the
  end of the chain, it returns and its result is the first entry of \<open>t\<close> with the name,
  or not-found at the end of the chain. In particular a child that declares the name
  gets its own entry, and a child that does not gets the entry of its parent.
\<close>

theorem LookupParent_innermost:
  "(parent_path st s as t \<and> (\<forall>a\<in>set as. \<not> declares st a n) \<and>
      (case t of None \<Rightarrow> True | Some b \<Rightarrow> declares st b n) \<longrightarrow>
    LookupParent exported st s n =
      Some (Inr (case t of None \<Rightarrow> None | Some b \<Rightarrow> first_named st b n))) \<and>
   (declares st c n \<longrightarrow>
    LookupParent exported st (Some c) n = Some (Inr (first_named st c n)) \<and>
    (\<exists>obj\<in>set (entries (scopes st c)).
       first_named st c n = Some obj \<and> Name (objects st obj) = n)) \<and>
   (parent (scopes st c) = Some p \<and> \<not> declares st c n \<and> declares st p n \<longrightarrow>
    LookupParent exported st (Some c) n = Some (Inr (first_named st p n)) \<and>
    (\<exists>obj\<in>set (entries (scopes st p)).
       first_named st p n = Some obj \<and> Name (objects st obj) = n))"
proof -
  have found: "\<exists>obj\<in>set (entries (scopes st b)).
      first_named st b n = Some obj \<and> Name (objects st obj) = n" if "declares st b n" for b
  proof -
    from that obtain obj where obj: "first_named st b n = Some obj"
      by (cases "first_named st b n") (simp_all add: first_named_None)
    then have "obj \<in> set (entries (scopes st b))" and "Name (objects st obj) = n"
      by (auto simp: first_named_def find_Some_iff)
    with obj show ?thesis by simp
  qed
  have general: "LookupParent exported st s n =
      Some (Inr (case t of None \<Rightarrow> None | Some b \<Rightarrow> first_named st b n))"
    if path: "parent_path st s as t" and skip: "\<forall>a\<in>set as. \<not> declares st a n"
      and last: "case t of None \<Rightarrow> True | Some b \<Rightarrow> declares st b n"
  proof (cases t)
    case None
    with LookupParent_path [OF path skip] show ?thesis
      by (simp add: LookupParent_absent)
  next
    case (Some b)
    with last have "declares st b n" by simp
    with Some LookupParent_path [OF path skip] show ?thesis
      by (simp add: LookupParent_declares)
  qed
  have child: "LookupParent exported st (Some c) n = Some (Inr (first_named st p n))"
    if "parent (scopes st c) = Some p" and "\<not> declares st c n" and "declares st p n"
  proof -
    from that have "LookupParent exported st (Some c) n = LookupParent exported st (Some p) n"
      by (simp add: LookupParent_step first_named_None [THEN iffD2])
    with that show ?thesis by (simp add: LookupParent_declares)
  qed
  from found general child show ?thesis
    by (simp add: LookupParent_declares)
qed

theorem LookupParent_innermost_witness:
  "LookupParent upper_initial (example_state [3] [4, 1]) (Some 1) ''pi'' = Some (Inr (Some 1)) \<and>
   LookupParent upper_initial (example_state [3] [4]) (Some 1) ''pi'' = Some (Inr (Some 3)) \<and>
   LookupParent upper_initial (example_state [3] [4]) (Some 1) ''y'' = Some (Inr None)"
proof -
  have "LookupParent upper_initial (example_state [3] [4, 1]) (Some 1) ''pi'' = Some (Inr (Some 1))"
    using LookupParent_innermost
      [of "example_state [3] [4, 1]" "Some 1" "[]" "Some 1" "''pi''" upper_initial 1 0]
    by (simp add: example_state_def example_objects_def declares_def first_named_def)
  moreover
  have "LookupParent upper_initial (example_state [3] [4]) (Some 1) ''pi'' = Some (Inr (Some 3))"
    using LookupParent_innermost
      [of "example_state [3] [4]" "Some 1" "[1]" "Some 0" "''pi''" upper_initial 1 0]
    by (simp add: example_state_def example_objects_def declares_def first_named_def)
  moreover
  have "LookupParent upper_initial (example_state [3] [4]) (Some 1) ''y'' = Some (Inr None)"
    using LookupParent_innermost
      [of "example_state [3] [4]" "Some 1" "[1, 0]" None "''y''" upper_initial 1 0]
    by (simp add: example_state_def example_objects_def declares_def first_named_def)
  ultimately show ?thesis by simp
qed






text \<open>
  C5 (order and uniqueness). Inserting objects with pairwise distinct identities into
  a scope without entries succeeds at each call; afterwards \<^verbatim>\<open>NumEntries\<close> is their
  number and \<^verbatim>\<open>At(i)\<close> is the \<open>i\<close>-th inserted object.
\<close>

theorem Insert_distinct_in_order:
  assumes "entries (scopes st a) = []" and "distinct_identities exported (objects st) xs"
  shows "\<exists>st'. Insert_seq exported st (map (Pair (Some a)) xs) =
                 Inr (replicate (length xs) None, st') \<and>
               NumEntries st' (Some a) = int (length xs) \<and>
               (\<forall>i<length xs. At st' (Some a) (int i) = Inr (xs ! i))"
proof -
  from assms(1) have "\<forall>e\<in>set (entries (scopes st a)). \<forall>x\<in>set xs.
      \<not> same_identity exported (objects st) x e \<and> \<not> same_identity exported (objects st) e x"
    by simp
  from Insert_seq_distinct [OF assms(2) this] assms(1) obtain st' where
    run: "Insert_seq exported st (map (Pair (Some a)) xs) = Inr (replicate (length xs) None, st')"
    and es: "entries (scopes st' a) = xs"
    by auto
  from es have "NumEntries st' (Some a) = int (length xs)"
    by (simp add: NumEntries_def)
  moreover from es have "\<forall>i<length xs. At st' (Some a) (int i) = Inr (xs ! i)"
    by (simp add: At_def)
  ultimately show ?thesis using run by blast
qed

theorem Insert_distinct_in_order_witness:
  "distinct_identities upper_initial (objects (example_state [] [])) [1, 2, 0, 4] \<and>
   (\<exists>st'. Insert_seq upper_initial (example_state [] []) (map (Pair (Some 0)) [1, 2, 0, 4]) =
             Inr (replicate 4 None, st') \<and>
           NumEntries st' (Some 0) = 4 \<and>
           At st' (Some 0) 2 = Inr 0)"
proof -
  have e: "entries (scopes (example_state [] []) 0) = []"
    by (simp add: example_state_def)
  have d: "distinct_identities upper_initial (objects (example_state [] [])) [1, 2, 0, 4]"
    by (simp add: example_state_def example_objects_def upper_initial_def same_identity_def
          identity_rule_def pkg_p_def pkg_q_def pkg_math_def)
  have len: "length [1, 2, 0, 4 :: nat] = 4" by simp
  from Insert_distinct_in_order [OF e d] obtain st' where
    run: "Insert_seq upper_initial (example_state [] []) (map (Pair (Some 0)) [1, 2, 0, 4]) =
       Inr (replicate (length [1, 2, 0, 4 :: nat]) None, st')"
    and num: "NumEntries st' (Some 0) = int (length [1, 2, 0, 4 :: nat])"
    and at: "\<forall>i<length [1, 2, 0, 4 :: nat]. At st' (Some 0) (int i) = Inr ([1, 2, 0, 4] ! i)"
    by blast
  from num have num': "NumEntries st' (Some 0) = 4" by simp
  from at [rule_format, of 2] have at': "At st' (Some 0) 2 = Inr 0" by simp
  from run [unfolded len] num' at' d show ?thesis by blast
qed



text \<open>
  C7 (unqualified first-match order). With an absent qualifier, \<^verbatim>\<open>Index\<close> on a scope
  never panics and compares names only: when some entry carries the name, the result is
  the smallest position of such an entry, and otherwise it is \<open>-1\<close>, as it is on the
  absent scope.
\<close>

theorem Index_unqualified_first_match:
  "Index exported st None None n = Inr (- 1) \<and>
   (\<exists>r. Index exported st (Some a) None n = Inr r \<and>
       (if \<exists>obj\<in>set (entries (scopes st a)). Name (objects st obj) = n
        then 0 \<le> r \<and> r < int (length (entries (scopes st a))) \<and>
             Name (objects st (entries (scopes st a) ! nat r)) = n \<and>
             (\<forall>j<nat r. Name (objects st (entries (scopes st a) ! j)) \<noteq> n)
        else r = - 1))"
proof (cases "first_position (\<lambda>obj. Name (objects st obj) = n) (entries (scopes st a))")
  case None
  then have "\<forall>obj\<in>set (entries (scopes st a)). Name (objects st obj) \<noteq> n"
    by (simp add: first_position_None)
  with None show ?thesis
    by (simp add: Index_unqualified Index_absent position_result_def)
next
  case (Some k)
  then have k: "k < length (entries (scopes st a))"
      "Name (objects st (entries (scopes st a) ! k)) = n"
      "\<forall>j<k. Name (objects st (entries (scopes st a) ! j)) \<noteq> n"
    by (simp_all add: first_position_Some)
  from k(1,2) have "\<exists>obj\<in>set (entries (scopes st a)). Name (objects st obj) = n"
    by (metis nth_mem)
  with Some k show ?thesis
    by (simp add: Index_unqualified Index_absent position_result_def)
qed

theorem Index_unqualified_first_match_witness:
  "Index upper_initial (example_state [4, 1, 3, 2] []) (Some 0) None ''pi'' = Inr 1 \<and>
   Index upper_initial (example_state [4, 1, 3, 2] []) (Some 0) None ''y'' = Inr (- 1)"
  using Index_unqualified_first_match [of upper_initial "example_state [4, 1, 3, 2] []" "''pi''" 0]
    Index_unqualified_first_match [of upper_initial "example_state [4, 1, 3, 2] []" "''y''" 0]
  by (simp add: Index_def example_state_def example_objects_def)

text \<open>
  C8 (chain termination). When the ancestor chain of \<open>s\<close> is finite, the scopes \<open>as\<close>
  from \<open>s\<close> up to the root, and none of them declares the name, \<^verbatim>\<open>LookupParent\<close> returns,
  with not-found, and the scopes it has searched are exactly \<open>as\<close>, each of them once:
  as many visits as the chain is deep.
\<close>

theorem LookupParent_chain_termination:
  assumes "parent_path st s as None" and "\<forall>a\<in>set as. \<not> declares st a n"
  shows "LookupParent exported st s n = Some (Inr None) \<and>
         LookupParent_visits exported st s n [] = Some (Inr None, as) \<and>
         distinct as"
  using LookupParent_path [OF assms] LookupParent_visits_path [OF assms, of exported "[]"]
    parent_path_distinct [OF assms(1)]
  by (simp add: LookupParent_absent LookupParent_visits_absent)

theorem LookupParent_chain_termination_witness:
  "parent_path (example_state [3] [4]) (Some 1) [1, 0] None \<and>
   LookupParent upper_initial (example_state [3] [4]) (Some 1) ''y'' = Some (Inr None) \<and>
   LookupParent_visits upper_initial (example_state [3] [4]) (Some 1) ''y'' [] =
     Some (Inr None, [1, 0])"
proof -
  have path: "parent_path (example_state [3] [4]) (Some 1) [1, 0] None"
    by (simp add: example_state_def)
  have none: "\<forall>a\<in>set [1, 0]. \<not> declares (example_state [3] [4]) a ''y''"
    by (simp add: example_state_def example_objects_def declares_def)
  from LookupParent_chain_termination [OF path none, of upper_initial] path
  show ?thesis by simp
qed

text \<open>
  C9 (Insert is not covered by the absence/empty equivalence). On the absent scope the
  conflict check of \<^verbatim>\<open>Insert\<close> finds nothing and the append then dereferences the nil
  receiver: \<^verbatim>\<open>Insert\<close> panics, for every object. \<^verbatim>\<open>NumEntries\<close>, \<^verbatim>\<open>IsEmpty\<close>, \<^verbatim>\<open>Index\<close>,
  \<^verbatim>\<open>Lookup\<close>, \<^verbatim>\<open>LookupParent\<close> and \<^verbatim>\<open>String\<close> return on the absent scope; the remaining
  operations, \<^verbatim>\<open>At\<close> and \<^verbatim>\<open>Parent\<close>, panic like \<^verbatim>\<open>Insert\<close>.
\<close>

theorem Insert_absent_scope_faults:
  "Lookup exported st None (Pkg (objects st obj)) (Name (objects st obj)) = Inr None \<and>
   Insert exported st None obj = Inl NilDeref \<and>
   NumEntries st None = 0 \<and>
   IsEmpty st None \<and>
   Index exported st None q n = Inr (- 1) \<and>
   Lookup exported st None q n = Inr None \<and>
   LookupParent exported st None n = Some (Inr None) \<and>
   String fmt_p fmt_T st None = ''scope {}'' \<and>
   At st None i = Inl NilDeref \<and>
   Parent st None = Inl NilDeref"
  by (simp add: Lookup_absent Index_absent LookupParent_absent Insert_def NumEntries_def
        IsEmpty_def String_def At_def Parent_def)

theorem Insert_absent_scope_faults_witness:
  "Insert upper_initial (example_state [] []) None 4 = Inl NilDeref"
  using Insert_absent_scope_faults [of upper_initial "example_state [] []" 4]
  by simp




end
